theory Spec2Isabelle
  imports Complex_Main "HOL-Library.Word" "HOL-Library.Log_Nat"
begin

section \<open>The values of the stack: JavaScript numbers\<close>

text \<open>
  The stack of \<^verbatim>\<open>src/evm.ts\<close> is a \<^verbatim>\<open>number[]\<close>: its elements are IEEE 754 binary64
  values, not 256-bit integers. A finite value is kept as the rational it denotes; the two
  infinities and NaN are values of their own. The two zeros are one value \<open>Fin 0\<close>: they
  are equal under \<^verbatim>\<open>===\<close>, \<^verbatim>\<open><\<close> and \<^verbatim>\<open>>\<close>, the program divides only behind a test
  \<^verbatim>\<open>item2 === 0\<close>, and so the sign of a zero reaches no other value.
\<close>

datatype number = Fin rat | PInf | NInf | NaN

definition pow2 :: "int \<Rightarrow> rat" where
  "pow2 k = (if 0 \<le> k then 2 ^ nat k else 1 / 2 ^ nat (- k))"

text \<open>The binary exponent of a rational that is not zero: \<open>pow2 e \<le> \<bar>q\<bar> < pow2 (e + 1)\<close>.\<close>

definition ilog2 :: "rat \<Rightarrow> int" where
  "ilog2 q =
     (let (n, d) = quotient_of \<bar>q\<bar>; k = bitlen n - bitlen d
      in if pow2 k \<le> \<bar>q\<bar> then k else k - 1)"

definition roundTiesToEven :: "rat \<Rightarrow> int" where
  "roundTiesToEven m =
     (let f = \<lfloor>m\<rfloor>; r = m - of_int f
      in if r < 1 / 2 then f
         else if 1 / 2 < r then f + 1
         else if even f then f else f + 1)"

text \<open>
  The Number value of a rational: the nearest binary64 value, ties to even. The
  significand has 53 bits, the least exponent of a unit in the last place is -1074
  (subnormal numbers), and a rounded value of binary exponent 1024 or more (a magnitude
  of \<open>2 ^ 1024\<close> at least) is an infinity.
\<close>

definition toNumber :: "rat \<Rightarrow> number" where
  "toNumber q =
     (if q = 0 then Fin 0
      else let p = max (ilog2 q - 52) (- 1074);
               r = of_int (roundTiesToEven (q / pow2 p)) * pow2 p
           in if r \<noteq> 0 \<and> 1024 \<le> ilog2 r then (if 0 < q then PInf else NInf)
              else Fin r)"

fun js_neg :: "number \<Rightarrow> number" where
  "js_neg (Fin a) = Fin (- a)"
| "js_neg PInf = NInf"
| "js_neg NInf = PInf"
| "js_neg NaN = NaN"

text \<open>\<^verbatim>\<open>x + y\<close> on numbers.\<close>

fun js_add :: "number \<Rightarrow> number \<Rightarrow> number" where
  "js_add NaN y = NaN"
| "js_add x NaN = NaN"
| "js_add (Fin a) (Fin b) = toNumber (a + b)"
| "js_add PInf NInf = NaN"
| "js_add NInf PInf = NaN"
| "js_add PInf y = PInf"
| "js_add NInf y = NInf"
| "js_add x PInf = PInf"
| "js_add x NInf = NInf"

text \<open>\<^verbatim>\<open>x - y\<close> on numbers.\<close>

definition js_sub :: "number \<Rightarrow> number \<Rightarrow> number" where
  "js_sub x y = js_add x (js_neg y)"

definition is_neg :: "number \<Rightarrow> bool" where
  "is_neg x = (case x of Fin a \<Rightarrow> a < 0 | NInf \<Rightarrow> True | _ \<Rightarrow> False)"

text \<open>\<^verbatim>\<open>x * y\<close> on numbers.\<close>

fun js_mul :: "number \<Rightarrow> number \<Rightarrow> number" where
  "js_mul NaN y = NaN"
| "js_mul x NaN = NaN"
| "js_mul (Fin a) (Fin b) = toNumber (a * b)"
| "js_mul x y =
     (if x = Fin 0 \<or> y = Fin 0 then NaN
      else if is_neg x = is_neg y then PInf else NInf)"

text \<open>
  \<^verbatim>\<open>x / y\<close> on numbers. The quotient by a zero has the sign of the zero in it, which
  this model does not keep: the equation for a finite \<open>a\<close> over zero reads the zero as
  positive. \<^verbatim>\<open>div\<close> tests \<^verbatim>\<open>item2 === 0\<close> before it divides, so the program never gets
  there.
\<close>

fun js_div :: "number \<Rightarrow> number \<Rightarrow> number" where
  "js_div NaN y = NaN"
| "js_div x NaN = NaN"
| "js_div (Fin a) (Fin b) =
     (if b = 0 then (if a = 0 then NaN else if 0 < a then PInf else NInf)
      else toNumber (a / b))"
| "js_div (Fin a) y = Fin 0"
| "js_div x (Fin b) = (if is_neg x = (b < 0) then PInf else NInf)"
| "js_div x y = NaN"

text \<open>
  \<^verbatim>\<open>x % y\<close> on numbers: the remainder of the division truncated towards zero, with the
  sign of the dividend. It is exact, so nothing is rounded.
\<close>

definition trunc :: "rat \<Rightarrow> int" where
  "trunc q = (if 0 \<le> q then \<lfloor>q\<rfloor> else \<lceil>q\<rceil>)"

fun js_rem :: "number \<Rightarrow> number \<Rightarrow> number" where
  "js_rem (Fin a) (Fin b) = (if b = 0 then NaN else Fin (a - b * of_int (trunc (a / b))))"
| "js_rem (Fin a) PInf = Fin a"
| "js_rem (Fin a) NInf = Fin a"
| "js_rem x y = NaN"

text \<open>\<^verbatim>\<open>x < y\<close>, \<^verbatim>\<open>x > y\<close> and \<^verbatim>\<open>x === y\<close> on numbers: every comparison with NaN is false.\<close>

fun js_lt :: "number \<Rightarrow> number \<Rightarrow> bool" where
  "js_lt NaN y = False"
| "js_lt x NaN = False"
| "js_lt (Fin a) (Fin b) = (a < b)"
| "js_lt x PInf = (x \<noteq> PInf)"
| "js_lt NInf y = (y \<noteq> NInf)"
| "js_lt x y = False"

definition js_gt :: "number \<Rightarrow> number \<Rightarrow> bool" where
  "js_gt x y = js_lt y x"

definition js_eq :: "number \<Rightarrow> number \<Rightarrow> bool" where
  "js_eq x y = (x \<noteq> NaN \<and> x = y)"

text \<open>\<^verbatim>\<open>2 ** 256\<close>, a power of two and so a binary64 value.\<close>

definition two256 :: number where
  "two256 = Fin (2 ^ 256)"

section \<open>Hexadecimal strings\<close>

text \<open>
  \<^verbatim>\<open>byte.toString(16)\<close> for an element of a \<^verbatim>\<open>Uint8Array\<close>: one or two lower-case digits,
  no leading zero.
\<close>

definition hexDigit :: "nat \<Rightarrow> char" where
  "hexDigit n = ''0123456789abcdef'' ! n"

definition toString16 :: "8 word \<Rightarrow> string" where
  "toString16 byte =
     (let n = unat byte
      in if n < 16 then [hexDigit n] else [hexDigit (n div 16), hexDigit (n mod 16)])"

text \<open>\<^verbatim>\<open>s.padStart(n, c)\<close> for a pad string of one character.\<close>

definition padStart :: "nat \<Rightarrow> char \<Rightarrow> string \<Rightarrow> string" where
  "padStart n c s = replicate (n - length s) c @ s"

text \<open>The value of a digit in radix 16, in either case; \<open>None\<close> for any other character.\<close>

definition digitValue :: "char \<Rightarrow> nat option" where
  "digitValue c =
     (let n = (of_char c :: nat)
      in if 48 \<le> n \<and> n \<le> 57 then Some (n - 48)
         else if 97 \<le> n \<and> n \<le> 102 then Some (n - 87)
         else if 65 \<le> n \<and> n \<le> 70 then Some (n - 55)
         else None)"

text \<open>
  \<^verbatim>\<open>parseInt(s, 16)\<close> on a string with no white space, sign or \<^verbatim>\<open>0x\<close> in front (\<^verbatim>\<open>push\<close>
  builds its argument from digits only): the longest prefix of digits is read as an
  integer, whose Number value is returned; with no digit to read the result is NaN.
\<close>

definition parseInt16 :: "string \<Rightarrow> number" where
  "parseInt16 s =
     (let ds = takeWhile (\<lambda>c. digitValue c \<noteq> None) s
      in if ds = [] then NaN
         else toNumber (of_nat (foldl (\<lambda>acc c. 16 * acc + the (digitValue c)) 0 ds)))"

text \<open>\<^verbatim>\<open>a.slice(start, end)\<close> for \<open>0 \<le> start \<le> end\<close>: both ends are cut to the length.\<close>

definition slice :: "'a list \<Rightarrow> nat \<Rightarrow> nat \<Rightarrow> 'a list" where
  "slice a start end = take (end - start) (drop start a)"

section \<open>The machine\<close>

definition PUSH0 :: "8 word" where "PUSH0 = 0x5f"
definition PUSH1 :: "8 word" where "PUSH1 = 0x60"
definition PUSH32 :: "8 word" where "PUSH32 = 0x7f"
definition POP :: "8 word" where "POP = 0x50"
definition ADD :: "8 word" where "ADD = 0x01"
definition MUL :: "8 word" where "MUL = 0x02"
definition SUB :: "8 word" where "SUB = 0x03"
definition DIV :: "8 word" where "DIV = 0x04"
definition MOD :: "8 word" where "MOD = 0x06"
definition LT :: "8 word" where "LT = 0x10"
definition GT :: "8 word" where "GT = 0x11"
definition EQ :: "8 word" where "EQ = 0x14"

text \<open>
  The fields of \<^verbatim>\<open>class EVM\<close>. The stack is the array as JavaScript has it: \<^verbatim>\<open>push\<close>
  appends at the end, \<^verbatim>\<open>pop\<close> takes the last element, which is the top.
\<close>

record evm =
  code :: "8 word list"
  pc :: nat
  stack :: "number list"

text \<open>\<^verbatim>\<open>throw new Error(msg)\<close>; nothing in the class catches it.\<close>

datatype error = Error string

definition new_EVM :: "8 word list \<Rightarrow> evm" where
  "new_EVM c = \<lparr>code = c, pc = 0, stack = []\<rparr>"

text \<open>
  \<^verbatim>\<open>nextInstruction\<close>: an index past the end of a typed array reads \<^verbatim>\<open>undefined\<close>,
  here \<open>None\<close>.
\<close>

definition nextInstruction :: "evm \<Rightarrow> 8 word option \<times> evm" where
  "nextInstruction s =
     (let op = (if pc s < length (code s) then Some (code s ! pc s) else None)
      in (op, s\<lparr>pc := pc s + 1\<rparr>))"

definition push :: "nat \<Rightarrow> evm \<Rightarrow> evm" where
  "push sz s =
     (let data = slice (code s) (pc s) (pc s + sz);
          v = parseInt16 (concat (map (\<lambda>byte. padStart 2 CHR ''0'' (toString16 byte)) data))
      in s\<lparr>stack := stack s @ [v], pc := pc s + sz\<rparr>)"

definition pop :: "evm \<Rightarrow> error + evm" where
  "pop s =
     (if length (stack s) = 0 then Inl (Error ''Stack underflow'')
      else Inr (s\<lparr>stack := butlast (stack s)\<rparr>))"

text \<open>
  The eight binary operations, each as the source has it: the test of the depth, two
  pops (\<^verbatim>\<open>item1\<close> is the top, \<^verbatim>\<open>item2\<close> the element under it) and one push.
\<close>

definition add :: "evm \<Rightarrow> error + evm" where
  "add s =
     (if length (stack s) < 2 then Inl (Error ''Stack underflow'')
      else let item1 = last (stack s); s1 = s\<lparr>stack := butlast (stack s)\<rparr>;
               item2 = last (stack s1); s2 = s1\<lparr>stack := butlast (stack s1)\<rparr>;
               addResult = js_rem (js_add item1 item2) two256
           in Inr (s2\<lparr>stack := stack s2 @ [addResult]\<rparr>))"

definition mul :: "evm \<Rightarrow> error + evm" where
  "mul s =
     (if length (stack s) < 2 then Inl (Error ''Stack underflow'')
      else let item1 = last (stack s); s1 = s\<lparr>stack := butlast (stack s)\<rparr>;
               item2 = last (stack s1); s2 = s1\<lparr>stack := butlast (stack s1)\<rparr>;
               mulResult = js_rem (js_mul item1 item2) two256
           in Inr (s2\<lparr>stack := stack s2 @ [mulResult]\<rparr>))"

definition sub :: "evm \<Rightarrow> error + evm" where
  "sub s =
     (if length (stack s) < 2 then Inl (Error ''Stack underflow'')
      else let item1 = last (stack s); s1 = s\<lparr>stack := butlast (stack s)\<rparr>;
               item2 = last (stack s1); s2 = s1\<lparr>stack := butlast (stack s1)\<rparr>;
               subResult = js_rem (js_sub item1 item2) two256
           in Inr (s2\<lparr>stack := stack s2 @ [subResult]\<rparr>))"

definition div_evm :: "evm \<Rightarrow> error + evm" where
  "div_evm s =
     (if length (stack s) < 2 then Inl (Error ''Stack underflow'')
      else let item1 = last (stack s); s1 = s\<lparr>stack := butlast (stack s)\<rparr>;
               item2 = last (stack s1); s2 = s1\<lparr>stack := butlast (stack s1)\<rparr>
           in if js_eq item2 (Fin 0) then Inr (s2\<lparr>stack := stack s2 @ [Fin 0]\<rparr>)
              else let divResult = js_rem (js_div item1 item2) two256
                   in Inr (s2\<lparr>stack := stack s2 @ [divResult]\<rparr>))"

definition mod_evm :: "evm \<Rightarrow> error + evm" where
  "mod_evm s =
     (if length (stack s) < 2 then Inl (Error ''Stack underflow'')
      else let item1 = last (stack s); s1 = s\<lparr>stack := butlast (stack s)\<rparr>;
               item2 = last (stack s1); s2 = s1\<lparr>stack := butlast (stack s1)\<rparr>;
               modResult =
                 (if \<not> js_eq item2 (Fin 0) then js_rem (js_rem item1 item2) two256
                  else Fin 0)
           in Inr (s2\<lparr>stack := stack s2 @ [modResult]\<rparr>))"

definition lt :: "evm \<Rightarrow> error + evm" where
  "lt s =
     (if length (stack s) < 2 then Inl (Error ''Stack underflow'')
      else let item1 = last (stack s); s1 = s\<lparr>stack := butlast (stack s)\<rparr>;
               item2 = last (stack s1); s2 = s1\<lparr>stack := butlast (stack s1)\<rparr>;
               ltResult = (if js_lt item1 item2 then Fin 1 else Fin 0)
           in Inr (s2\<lparr>stack := stack s2 @ [ltResult]\<rparr>))"

definition gt :: "evm \<Rightarrow> error + evm" where
  "gt s =
     (if length (stack s) < 2 then Inl (Error ''Stack underflow'')
      else let item1 = last (stack s); s1 = s\<lparr>stack := butlast (stack s)\<rparr>;
               item2 = last (stack s1); s2 = s1\<lparr>stack := butlast (stack s1)\<rparr>;
               gtResult = (if js_gt item1 item2 then Fin 1 else Fin 0)
           in Inr (s2\<lparr>stack := stack s2 @ [gtResult]\<rparr>))"

definition eq :: "evm \<Rightarrow> error + evm" where
  "eq s =
     (if length (stack s) < 2 then Inl (Error ''Stack underflow'')
      else let item1 = last (stack s); s1 = s\<lparr>stack := butlast (stack s)\<rparr>;
               item2 = last (stack s1); s2 = s1\<lparr>stack := butlast (stack s1)\<rparr>;
               eqResult = (if js_eq item2 item1 then Fin 1 else Fin 0)
           in Inr (s2\<lparr>stack := stack s2 @ [eqResult]\<rparr>))"

text \<open>
  One turn of the loop of \<^verbatim>\<open>run\<close>: the chain of tests in the order of the source. A
  byte that passes none of them leaves the chain with nothing done; the chain has no
  final \<^verbatim>\<open>else\<close>.
\<close>

definition step :: "evm \<Rightarrow> error + evm" where
  "step s0 =
     (let (opt, s) = nextInstruction s0
      in case opt of
           None \<Rightarrow> Inr s
         | Some op \<Rightarrow>
             if PUSH1 \<le> op \<and> op \<le> PUSH32 then Inr (push (unat op - unat PUSH1 + 1) s)
             else if op = PUSH0 then Inr (s\<lparr>stack := stack s @ [Fin 0]\<rparr>)
             else if op = POP then pop s
             else if op = ADD then add s
             else if op = MUL then mul s
             else if op = SUB then sub s
             else if op = DIV then div_evm s
             else if op = MOD then mod_evm s
             else if op = LT then lt s
             else if op = GT then gt s
             else if op = EQ then eq s
             else Inr s)"

text \<open>
  The frame that the eight binary operations have in common, around the expression \<open>f\<close>
  of \<^verbatim>\<open>item1\<close> and \<^verbatim>\<open>item2\<close>; the proofs go through it.
\<close>

definition binary :: "(number \<Rightarrow> number \<Rightarrow> number) \<Rightarrow> evm \<Rightarrow> error + evm" where
  "binary f s =
     (if length (stack s) < 2 then Inl (Error ''Stack underflow'')
      else Inr (s\<lparr>stack := butlast (butlast (stack s)) @
                  [f (last (stack s)) (last (butlast (stack s)))]\<rparr>))"

text \<open>
  What \<^verbatim>\<open>push\<close> computes, said without strings: the bytes read as one big-endian
  numeral, and the two digits \<^verbatim>\<open>push\<close> writes for a byte.
\<close>

definition be_value :: "8 word list \<Rightarrow> nat" where
  "be_value bytes = foldl (\<lambda>acc b. 256 * acc + unat b) 0 bytes"

definition byteHex :: "8 word \<Rightarrow> string" where
  "byteHex byte = padStart 2 CHR ''0'' (toString16 byte)"

text \<open>
  \<^verbatim>\<open>run\<close>: the loop, left by the test of the program counter or by a throw. The result
  is the machine as the loop leaves it (\<^verbatim>\<open>console.log\<close> then prints its stack). Every
  turn moves the program counter forward, which is the measure of the termination proof.
\<close>

function run :: "evm \<Rightarrow> error + evm" where
  "run s =
     (if pc s < length (code s)
      then (case step s of Inl e \<Rightarrow> Inl e | Inr s' \<Rightarrow> run s')
      else Inr s)"
  by pat_completeness auto
termination
proof (relation "measure (\<lambda>s. length (code s) - pc s)")
  show "wf (measure (\<lambda>s. length (code s) - pc s))"
    by simp
next
  fix s s'
  assume "pc s < length (code s)" and "step s = Inr s'"
  then show "(s', s) \<in> measure (\<lambda>s. length (code s) - pc s)"
    by (auto simp: step_def nextInstruction_def push_def pop_def add_def mul_def
        sub_def div_evm_def mod_evm_def lt_def gt_def eq_def Let_def
        split: option.splits if_splits)
qed

declare run.simps [simp del]

text \<open>
  The same loop with a bound on the number of turns: \<open>None\<close> when the bound is used up
  with the loop still running.
\<close>

fun run_fuel :: "nat \<Rightarrow> evm \<Rightarrow> (error + evm) option" where
  "run_fuel 0 s = (if pc s < length (code s) then None else Some (Inr s))"
| "run_fuel (Suc n) s =
     (if pc s < length (code s)
      then (case step s of Inl e \<Rightarrow> Some (Inl e) | Inr s' \<Rightarrow> run_fuel n s')
      else Some (Inr s))"

text \<open>The bytes that pass one of the tests of the chain in \<^verbatim>\<open>run\<close>.\<close>

definition recognized :: "8 word \<Rightarrow> bool" where
  "recognized op =
     ((PUSH1 \<le> op \<and> op \<le> PUSH32) \<or>
      op \<in> set [PUSH0, POP, ADD, MUL, SUB, DIV, MOD, LT, GT, EQ])"

text \<open>
  The operand of a push-N as the specification words it, for the claim about a program
  that ends inside the operand: the bytes that are there, padded on the right with zero
  bytes to the full N, read as one big-endian numeral.
\<close>

definition spec_push_operand :: "nat \<Rightarrow> 8 word list \<Rightarrow> nat" where
  "spec_push_operand n avail = be_value (avail @ replicate (n - length avail) 0)"


section \<open>Facts about the loop\<close>

lemma step_pc: "step s = Inr s' \<Longrightarrow> code s' = code s \<and> pc s < pc s'"
  by (auto simp: step_def nextInstruction_def push_def pop_def add_def mul_def
      sub_def div_evm_def mod_evm_def lt_def gt_def eq_def Let_def
      split: option.splits if_splits)

lemma step_pc_exact:
  assumes "pc s < length (code s)" and "step s = Inr s'"
  shows "code s' = code s \<and>
         pc s' = pc s + 1 +
           (if PUSH1 \<le> code s ! pc s \<and> code s ! pc s \<le> PUSH32
            then unat (code s ! pc s) - unat PUSH1 + 1 else 0)"
  using assms
  by (auto simp: step_def nextInstruction_def push_def pop_def add_def mul_def
      sub_def div_evm_def mod_evm_def lt_def gt_def eq_def Let_def
      split: option.splits if_splits)

lemma run_fuel_run: "length (code s) - pc s \<le> n \<Longrightarrow> run_fuel n s = Some (run s)"
proof (induction n arbitrary: s)
  case 0
  then show ?case by (simp add: run.simps)
next
  case (Suc n)
  show ?case
  proof (cases "pc s < length (code s)")
    case False
    then show ?thesis by (simp add: run.simps)
  next
    case True
    show ?thesis
    proof (cases "step s")
      case (Inl e)
      then show ?thesis using True by (simp add: run.simps)
    next
      case (Inr s')
      then have "length (code s') - pc s' \<le> n"
        using step_pc [OF Inr] Suc.prems by auto
      then have "run_fuel n s' = Some (run s')"
        by (rule Suc.IH)
      then show ?thesis using True Inr by (simp add: run.simps [of s])
    qed
  qed
qed

lemma run_exit: "run s = Inr s' \<Longrightarrow> code s' = code s \<and> length (code s) \<le> pc s'"
proof (induction s rule: run.induct)
  case (1 s)
  show ?case
  proof (cases "pc s < length (code s)")
    case False
    then show ?thesis using "1.prems" by (simp add: run.simps)
  next
    case True
    then obtain t where t: "step s = Inr t" and r: "run t = Inr s'"
      using "1.prems" by (auto simp: run.simps [of s] split: sum.splits)
    then show ?thesis
      using "1.IH" [OF True t r] step_pc [OF t] by simp
  qed
qed

lemma add_binary: "add = binary (\<lambda>item1 item2. js_rem (js_add item1 item2) two256)"
  by (simp add: fun_eq_iff add_def binary_def Let_def)

lemma mul_binary: "mul = binary (\<lambda>item1 item2. js_rem (js_mul item1 item2) two256)"
  by (simp add: fun_eq_iff mul_def binary_def Let_def)

lemma sub_binary: "sub = binary (\<lambda>item1 item2. js_rem (js_sub item1 item2) two256)"
  by (simp add: fun_eq_iff sub_def binary_def Let_def)

lemma div_binary:
  "div_evm = binary (\<lambda>item1 item2.
     if js_eq item2 (Fin 0) then Fin 0 else js_rem (js_div item1 item2) two256)"
  by (simp add: fun_eq_iff div_evm_def binary_def Let_def)

lemma mod_binary:
  "mod_evm = binary (\<lambda>item1 item2.
     if \<not> js_eq item2 (Fin 0) then js_rem (js_rem item1 item2) two256 else Fin 0)"
  by (simp add: fun_eq_iff mod_evm_def binary_def Let_def)

lemma lt_binary: "lt = binary (\<lambda>item1 item2. if js_lt item1 item2 then Fin 1 else Fin 0)"
  by (simp add: fun_eq_iff lt_def binary_def Let_def)

lemma gt_binary: "gt = binary (\<lambda>item1 item2. if js_gt item1 item2 then Fin 1 else Fin 0)"
  by (simp add: fun_eq_iff gt_def binary_def Let_def)

lemma eq_binary: "eq = binary (\<lambda>item1 item2. if js_eq item2 item1 then Fin 1 else Fin 0)"
  by (simp add: fun_eq_iff eq_def binary_def Let_def)

lemmas binary_ops = add_binary mul_binary sub_binary div_binary mod_binary lt_binary gt_binary
  eq_binary

lemma binary_underflow:
  "length (stack s) < 2 \<Longrightarrow> binary f s = Inl (Error ''Stack underflow'')"
  by (simp add: binary_def)


lemma binary_top2:
  "binary f (s\<lparr>stack := st @ [item2, item1]\<rparr>) = Inr (s\<lparr>stack := st @ [f item1 item2]\<rparr>)"
  by (simp add: binary_def Let_def butlast_append)


lemma run_throw:
  "pc s < length (code s) \<Longrightarrow> step s = Inl e \<Longrightarrow> run s = Inl e"
  by (simp add: run.simps [of s])

lemma step_unrecognized:
  "pc s < length (code s) \<Longrightarrow> \<not> recognized (code s ! pc s) \<Longrightarrow>
   step s = Inr (s\<lparr>pc := pc s + 1\<rparr>)"
  by (auto simp: step_def nextInstruction_def recognized_def)

lemma step_PUSH0:
  "pc s < length (code s) \<Longrightarrow> code s ! pc s = PUSH0 \<Longrightarrow>
   step s = Inr (s\<lparr>pc := pc s + 1, stack := stack s @ [Fin 0]\<rparr>)"
  by (simp add: step_def nextInstruction_def PUSH0_def PUSH1_def PUSH32_def word_le_nat_alt)

lemma step_PUSHn:
  "pc s < length (code s) \<Longrightarrow> PUSH1 \<le> code s ! pc s \<Longrightarrow> code s ! pc s \<le> PUSH32 \<Longrightarrow>
   step s = Inr (push (unat (code s ! pc s) - unat PUSH1 + 1) (s\<lparr>pc := pc s + 1\<rparr>))"
  by (simp add: step_def nextInstruction_def)

lemma run_PUSH0s:
  "k \<le> n \<Longrightarrow>
   run \<lparr>code = replicate n PUSH0, pc = k, stack = st\<rparr> =
     Inr \<lparr>code = replicate n PUSH0, pc = n, stack = st @ replicate (n - k) (Fin 0)\<rparr>"
proof (induction "n - k" arbitrary: k st)
  case 0
  then show ?case by (simp add: run.simps)
next
  case (Suc d)
  let ?s = "\<lparr>code = replicate n PUSH0, pc = k, stack = st\<rparr>"
  have k: "k < n"
    using Suc.hyps(2) by simp
  then have "step ?s = Inr \<lparr>code = replicate n PUSH0, pc = k + 1, stack = st @ [Fin 0]\<rparr>"
    using step_PUSH0 [of ?s] by simp
  moreover have "run \<lparr>code = replicate n PUSH0, pc = k + 1, stack = st @ [Fin 0]\<rparr> =
     Inr \<lparr>code = replicate n PUSH0, pc = n, stack = (st @ [Fin 0]) @ replicate (n - (k + 1)) (Fin 0)\<rparr>"
    using Suc.hyps(2) k by (intro Suc.hyps(1)) simp_all
  moreover have "(st @ [Fin 0]) @ replicate (n - (k + 1)) (Fin 0) = st @ replicate (n - k) (Fin 0)"
    using k by (simp add: replicate_Suc [symmetric] Suc_diff_Suc del: replicate_Suc)
  ultimately show ?case
    using k by (simp add: run.simps [of ?s])
qed

section \<open>Numbers: the rounding is exact on binary64 values\<close>

lemma pow2_powi: "pow2 k = 2 powi k"
  by (simp add: pow2_def power_int_def field_simps)

lemma pow2_pos: "0 < pow2 k"
  by (simp add: pow2_powi)

lemma pow2_add: "pow2 (a + b) = pow2 a * pow2 b"
  by (simp add: pow2_powi power_int_add)

lemma pow2_mono: "a \<le> b \<Longrightarrow> pow2 a \<le> pow2 b"
  by (simp add: pow2_powi power_int_increasing)

lemma pow2_less_cancel: "pow2 a < pow2 b \<Longrightarrow> a < b"
  using pow2_mono [of b a] by (cases "a < b") auto

lemma pow2_nat: "0 \<le> k \<Longrightarrow> pow2 k = of_int (2 ^ nat k)"
  by (simp add: pow2_def)

lemma ilog2_bounds:
  assumes "q \<noteq> 0"
  shows "pow2 (ilog2 q) \<le> \<bar>q\<bar> \<and> \<bar>q\<bar> < pow2 (ilog2 q + 1)"
proof -
  obtain n d where nd: "quotient_of \<bar>q\<bar> = (n, d)"
    by (cases "quotient_of \<bar>q\<bar>")
  have d: "0 < d"
    using nd by (rule quotient_of_denom_pos)
  have q: "\<bar>q\<bar> = of_int n / of_int d"
    using nd by (rule quotient_of_div)
  have n: "0 < n"
  proof -
    have "0 < \<bar>q\<bar>" using assms by simp
    then show ?thesis using d by (simp add: q zero_less_divide_iff)
  qed
  define k where "k = bitlen n - bitlen d"
  have bn: "1 \<le> bitlen n" and bd: "1 \<le> bitlen d"
    using n d by (auto simp: bitlen_alt_def)
  have n_lo: "pow2 (bitlen n - 1) \<le> of_int n" and n_hi: "of_int n < pow2 (bitlen n)"
    using bitlen_bounds [OF n] bn
    by (simp_all add: pow2_nat del: of_int_power)
  have d_lo: "pow2 (bitlen d - 1) \<le> of_int d" and d_hi: "of_int d < pow2 (bitlen d)"
    using bitlen_bounds [OF d] bd
    by (simp_all add: pow2_nat del: of_int_power)
  have hi: "\<bar>q\<bar> < pow2 (k + 1)"
  proof -
    have "of_int n < pow2 (k + 1) * pow2 (bitlen d - 1)"
      using n_hi by (simp add: pow2_add [symmetric] k_def)
    also have "\<dots> \<le> pow2 (k + 1) * of_int d"
      using d_lo pow2_pos [of "k + 1"] by simp
    finally show ?thesis
      using d by (simp add: q pos_divide_less_eq)
  qed
  have lo: "pow2 (k - 1) \<le> \<bar>q\<bar>"
  proof -
    have "pow2 (k - 1) * of_int d \<le> pow2 (k - 1) * pow2 (bitlen d)"
      using d_hi pow2_pos [of "k - 1"] by simp
    also have "\<dots> = pow2 (bitlen n - 1)"
      by (simp add: pow2_add [symmetric] k_def)
    also have "\<dots> \<le> of_int n"
      by (rule n_lo)
    finally show ?thesis
      using d by (simp add: q pos_le_divide_eq)
  qed
  show ?thesis
  proof (cases "pow2 k \<le> \<bar>q\<bar>")
    case True
    then have "ilog2 q = k"
      by (simp add: ilog2_def nd k_def)
    then show ?thesis using True hi by simp
  next
    case False
    then have "ilog2 q = k - 1"
      by (simp add: ilog2_def nd k_def)
    then show ?thesis using False lo by simp
  qed
qed

lemma ilog2_less: "q \<noteq> 0 \<Longrightarrow> \<bar>q\<bar> < pow2 b \<Longrightarrow> ilog2 q < b"
  using ilog2_bounds [of q] by (intro pow2_less_cancel) simp

lemma roundTiesToEven_of_int: "roundTiesToEven (of_int z) = z"
  by (simp add: roundTiesToEven_def)

text \<open>Every binary64 value is its own Number value.\<close>

lemma toNumber_exact:
  assumes m: "\<bar>m\<bar> < 2 ^ 53" and e: "- 1074 \<le> e" "e \<le> 971"
  shows "toNumber (of_int m * pow2 e) = Fin (of_int m * pow2 e)"
proof (cases "m = 0")
  case True
  then show ?thesis by (simp add: toNumber_def)
next
  case False
  define q :: rat where "q = of_int m * pow2 e"
  have q0: "q \<noteq> 0"
    using False pow2_pos [of e] by (simp add: q_def)
  have "\<bar>q\<bar> = of_int \<bar>m\<bar> * pow2 e"
    using pow2_pos [of e] by (simp add: q_def abs_mult)
  also have "\<dots> < of_int (2 ^ 53) * pow2 e"
    using m pow2_pos [of e] by (simp del: of_int_power)
  also have "\<dots> = pow2 (53 + e)"
    by (simp add: pow2_add pow2_nat)
  finally have "ilog2 q < 53 + e"
    using q0 by (intro ilog2_less)
  define p where "p = max (ilog2 q - 52) (- 1074)"
  have pe: "p \<le> e"
    using \<open>ilog2 q < 53 + e\<close> e by (simp add: p_def)
  have "q / pow2 p = of_int m * pow2 (e - p)"
  proof -
    have "pow2 e = pow2 (e - p) * pow2 p"
      by (simp add: pow2_add [symmetric])
    then show ?thesis
      using pow2_pos [of p] by (simp add: q_def)
  qed
  also have "\<dots> = of_int (m * 2 ^ nat (e - p))"
    using pe by (simp add: pow2_nat)
  finally have "roundTiesToEven (q / pow2 p) = m * 2 ^ nat (e - p)"
    by (simp only: roundTiesToEven_of_int)
  then have r: "of_int (roundTiesToEven (q / pow2 p)) * pow2 p = q"
    using \<open>q / pow2 p = of_int m * pow2 (e - p)\<close> \<open>of_int m * pow2 (e - p) = of_int (m * 2 ^ nat (e - p))\<close> pow2_pos [of p]
    by (simp add: field_simps)
  have "\<not> 1024 \<le> ilog2 q"
    using \<open>ilog2 q < 53 + e\<close> e by simp
  then show ?thesis
    using q0 r by (simp add: toNumber_def Let_def p_def [symmetric] q_def [symmetric])
qed

lemma toNumber_int: "\<bar>m\<bar> < 2 ^ 53 \<Longrightarrow> toNumber (of_int m) = Fin (of_int m)"
  using toNumber_exact [of m 0] by (simp add: pow2_def)

text \<open>An integer of 54 bits is not a binary64 value: the last bit is rounded away.\<close>

lemma rounding_loses_one:
  "toNumber (2 ^ 53 + 1) = Fin (2 ^ 53)"
  by code_simp

lemma toNumber_numeral:
  "numeral k < (2::int) ^ 53 \<Longrightarrow> toNumber (numeral k) = Fin (numeral k)"
  using toNumber_exact [of "numeral k" 0] by (simp add: pow2_def)

lemma toNumber_neg_numeral:
  "numeral k < (2::int) ^ 53 \<Longrightarrow> toNumber (- numeral k) = Fin (- numeral k)"
  using toNumber_exact [of "- numeral k" 0] by (simp add: pow2_def)

lemma toNumber_one: "toNumber 1 = Fin 1"
  using toNumber_exact [of 1 0] by (simp add: pow2_def)

lemma toNumber_neg_one: "toNumber (- 1) = Fin (- 1)"
  using toNumber_exact [of "- 1" 0] by (simp add: pow2_def)

lemma toNumber_zero: "toNumber 0 = Fin 0"
  by (simp add: toNumber_def)

lemma js_rem_small: "\<bar>a\<bar> < b \<Longrightarrow> js_rem (Fin a) (Fin b) = Fin a"
proof -
  assume a: "\<bar>a\<bar> < b"
  then have b: "0 < b" and lo: "- b < a" and hi: "a < b"
    by (simp_all add: abs_less_iff)
  have "- 1 < a / b" and "a / b < 1"
    using lo hi b by (simp_all add: pos_less_divide_eq pos_divide_less_eq)
  then have "trunc (a / b) = 0"
    by (auto simp: trunc_def floor_eq_iff ceiling_eq_iff)
  then show ?thesis using b by simp
qed

lemma js_rem_self: "b \<noteq> 0 \<Longrightarrow> js_rem (Fin b) (Fin b) = Fin 0"
  by (simp add: trunc_def)



lemmas toNumber_pow255 = toNumber_exact [of 1 255, simplified pow2_def, simplified]
lemmas toNumber_pow256 = toNumber_exact [of 1 256, simplified pow2_def, simplified]
lemmas toNumber_neg_pow255 = toNumber_exact [of "- 1" 255, simplified pow2_def, simplified]
lemmas toNumber_7_2 = toNumber_exact [of 7 "- 1", simplified pow2_def, simplified]

section \<open>What \<^verbatim>\<open>push\<close> reads\<close>

lemma digitValue_hexDigit: "n < 16 \<Longrightarrow> digitValue (hexDigit n) = Some n"
proof -
  assume "n < 16"
  then have "n \<in> {0, 1, 2, 3, 4, 5, 6, 7, 8, 9, 10, 11, 12, 13, 14, 15}"
    by simp arith
  then show ?thesis
    by (auto simp: hexDigit_def digitValue_def)
qed

lemma byteHex_digits:
  "byteHex b = [hexDigit (unat b div 16), hexDigit (unat b mod 16)]"
  by (simp add: byteHex_def padStart_def toString16_def Let_def hexDigit_def)

lemma unat_byte_div16: "unat (b :: 8 word) div 16 < 16"
proof -
  have "unat b < 256"
    using unsigned_less [of b] by simp
  then show ?thesis by simp
qed

lemma digitValue_byteHex: "c \<in> set (byteHex b) \<Longrightarrow> digitValue c \<noteq> None"
  using unat_byte_div16 [of b]
  by (auto simp: byteHex_digits digitValue_hexDigit)

lemma takeWhile_hex:
  "takeWhile (\<lambda>c. digitValue c \<noteq> None) (concat (map byteHex data)) = concat (map byteHex data)"
  by (rule takeWhile_eq_all_conv [THEN iffD2]) (auto dest: digitValue_byteHex)

lemma foldl_byteHex:
  "foldl (\<lambda>acc c. 16 * acc + the (digitValue c)) acc (byteHex b) = 256 * acc + unat b"
  using unat_byte_div16 [of b]
  by (simp add: byteHex_digits digitValue_hexDigit)

lemma foldl_hex:
  "foldl (\<lambda>acc c. 16 * acc + the (digitValue c)) acc (concat (map byteHex data)) =
   foldl (\<lambda>acc b. 256 * acc + unat b) acc data"
  by (induction data arbitrary: acc) (simp_all add: foldl_byteHex)

lemma concat_hex_Nil: "concat (map byteHex data) = [] \<longleftrightarrow> data = []"
  by (cases data) (simp_all add: byteHex_digits)

lemma parseInt16_hex:
  "parseInt16 (concat (map byteHex data)) =
     (if data = [] then NaN else toNumber (of_nat (be_value data)))"
  unfolding parseInt16_def takeWhile_hex foldl_hex be_value_def Let_def concat_hex_Nil
  by (rule refl)

lemma push_value:
  "push n s = s\<lparr>stack := stack s @ [if length (code s) \<le> pc s \<or> n = 0 then NaN
        else toNumber (of_nat (be_value (take n (drop (pc s) (code s)))))], pc := pc s + n\<rparr>"
proof -
  have "(\<lambda>byte. padStart 2 CHR ''0'' (toString16 byte)) = byteHex"
    by (simp add: byteHex_def fun_eq_iff)
  then show ?thesis
    by (simp add: push_def slice_def Let_def parseInt16_hex)
qed

text \<open>The equations that evaluate the machine on a given program.\<close>

lemmas number_eval = toNumber_numeral toNumber_neg_numeral toNumber_one toNumber_neg_one
  toNumber_zero js_rem_small two256_def js_sub_def js_gt_def js_eq_def word_le_nat_alt

lemmas machine_eval = run.simps new_EVM_def step_def nextInstruction_def push_value pop_def
  binary_def binary_ops be_value_def
  PUSH0_def PUSH1_def PUSH32_def POP_def ADD_def MUL_def SUB_def DIV_def MOD_def LT_def GT_def
  EQ_def Let_def

section \<open>The operations on particular stacks\<close>

text \<open>
  Addition commutes, and adding zero to a binary64 value of the range of a word gives
  the value back.
\<close>

lemma js_add_commute: "js_add x y = js_add y x"
  by (cases x; cases y) (simp_all add: add.commute)

lemma add_commutes:
  "add (s\<lparr>stack := st @ [a, b]\<rparr>) = add (s\<lparr>stack := st @ [b, a]\<rparr>)"
  by (simp add: add_binary binary_top2 js_add_commute)

lemma add_zero:
  assumes "\<bar>m\<bar> < 2 ^ 53" and "- 1074 \<le> e" and "e \<le> 971"
    and "a = of_int m * pow2 e" and "0 \<le> a" and "a < 2 ^ 256"
  shows "add (s\<lparr>stack := st @ [Fin 0, Fin a]\<rparr>) = Inr (s\<lparr>stack := st @ [Fin a]\<rparr>)"
proof -
  have "toNumber a = Fin a"
    using assms(1-4) by (simp add: toNumber_exact)
  moreover have "js_rem (Fin a) two256 = Fin a"
    using assms(5,6) by (simp add: two256_def js_rem_small del: js_rem.simps)
  ultimately show ?thesis
    by (simp add: add_binary binary_top2 del: js_rem.simps)
qed



text \<open>
  On integers below \<open>2 ^ 53\<close> a subtraction of the larger from the smaller is exact and
  negative: the remainder by \<open>2 ^ 256\<close> leaves it as it is.
\<close>

lemma sub_below_zero:
  assumes "0 \<le> a" and "a < b" and "b < 2 ^ 53"
  shows "sub (s\<lparr>stack := st @ [Fin (of_int b), Fin (of_int a)]\<rparr>) =
         Inr (s\<lparr>stack := st @ [Fin (of_int (a - b))]\<rparr>)"
proof -
  have "\<bar>a - b\<bar> < 2 ^ 53"
    using assms by simp
  then have "toNumber (of_int (a - b)) = Fin (of_int (a - b))"
    by (rule toNumber_int)
  moreover have "\<bar>rat_of_int (a - b)\<bar> < 2 ^ 256"
  proof -
    have "\<bar>a - b\<bar> < 2 ^ 256"
      using \<open>\<bar>a - b\<bar> < 2 ^ 53\<close> by simp
    then have "rat_of_int \<bar>a - b\<bar> < rat_of_int (2 ^ 256)"
      by (simp only: of_int_less_iff)
    then show ?thesis by simp
  qed
  ultimately show ?thesis
    by (simp add: sub_binary binary_top2 js_sub_def two256_def js_rem_small del: js_rem.simps)
qed

text \<open>
  A push-N at the very end of the bytecode has no digit to parse: \<^verbatim>\<open>parseInt\<close> of the
  empty string is NaN.
\<close>

lemma push_without_operand:
  "run (new_EVM [0x60]) = Inr \<lparr>code = [0x60], pc = 2, stack = [NaN]\<rparr>"
  by (simp add: machine_eval number_eval)

section \<open>The claims\<close>

subsection \<open>C1: the addition and the subtraction scenario\<close>

text \<open>
  C1. Running the engine on the bytecode 60 01 60 01 01 (push 1, push 1, add) ends
  normally with the stack [2], and on 60 02 60 03 03 (push 2, push 3, sub) it ends
  normally with the stack [1]. In the subtraction the value popped first (the top) is
  the minuend and the value popped second is the subtrahend.
\<close>

theorem add_sub_scenarios:
  "run (new_EVM [0x60, 0x01, 0x60, 0x01, 0x01]) =
     Inr \<lparr>code = [0x60, 0x01, 0x60, 0x01, 0x01], pc = 5, stack = [Fin 2]\<rparr> \<and>
   run (new_EVM [0x60, 0x02, 0x60, 0x03, 0x03]) =
     Inr \<lparr>code = [0x60, 0x02, 0x60, 0x03, 0x03], pc = 5, stack = [Fin 1]\<rparr> \<and>
   sub (s\<lparr>stack := st @ [second, first]\<rparr>) =
     Inr (s\<lparr>stack := st @ [js_rem (js_sub first second) two256]\<rparr>)"
proof (intro conjI)
  show "run (new_EVM [0x60, 0x01, 0x60, 0x01, 0x01]) =
     Inr \<lparr>code = [0x60, 0x01, 0x60, 0x01, 0x01], pc = 5, stack = [Fin 2]\<rparr>"
    by (simp add: machine_eval number_eval del: js_rem.simps)
  show "run (new_EVM [0x60, 0x02, 0x60, 0x03, 0x03]) =
     Inr \<lparr>code = [0x60, 0x02, 0x60, 0x03, 0x03], pc = 5, stack = [Fin 1]\<rparr>"
    by (simp add: machine_eval number_eval del: js_rem.simps)
  show "sub (s\<lparr>stack := st @ [second, first]\<rparr>) =
     Inr (s\<lparr>stack := st @ [js_rem (js_sub first second) two256]\<rparr>)"
    by (simp add: sub_binary binary_top2)
qed

subsection \<open>C2: a subtraction below zero\<close>

text \<open>
  C2 says that \<open>sub(a, b)\<close> with \<open>b > a\<close> is \<open>(a - b) mod 2 ^ 256\<close>, a large value
  that is not negative. The code computes \<^verbatim>\<open>(item1 - item2) % 2 ** 256\<close>, and \<^verbatim>\<open>%\<close>
  keeps the sign of the dividend: the program 60 02 60 01 03 (push 2, push 1, sub)
  ends with the stack [-1].
\<close>

theorem sub_negative_result:
  "run (new_EVM [0x60, 0x02, 0x60, 0x01, 0x03]) =
     Inr \<lparr>code = [0x60, 0x02, 0x60, 0x01, 0x03], pc = 5, stack = [Fin (- 1)]\<rparr>"
  by (simp add: machine_eval number_eval del: js_rem.simps)

subsection \<open>C3: a division that is not exact\<close>

text \<open>
  C3 says that DIV with a divisor other than zero pushes \<open>floor(a / b)\<close>, an integer.
  The code computes \<^verbatim>\<open>(item1 / item2) % 2 ** 256\<close> on numbers and rounds nothing to an
  integer: the program 60 02 60 07 04 (push 2, push 7, div) ends with the stack [3.5].
\<close>

theorem div_fraction_result:
  "run (new_EVM [0x60, 0x02, 0x60, 0x07, 0x04]) =
     Inr \<lparr>code = [0x60, 0x02, 0x60, 0x07, 0x04], pc = 5, stack = [Fin (7 / 2)]\<rparr>"
  by (simp add: machine_eval number_eval toNumber_7_2 del: js_rem.simps)

subsection \<open>C4: arithmetic raises nothing but stack underflow\<close>




subsection \<open>C5: a push whose operand runs past the end\<close>

text \<open>
  C5, as stated: when the N operand bytes of a push-N run past the end of the bytecode,
  the missing bytes are zero bytes padded on the right, so that the bytes present are
  the high-order end of the value; that value is pushed and the program counter
  advances by N. The program 61 01 (PUSH2 with one byte of operand) refutes it: the
  padded operand 01 00 is 256, and the code pushes 1.
\<close>

theorem push_right_padding_counterexample:
  "run (new_EVM [0x61, 0x01]) = Inr \<lparr>code = [0x61, 0x01], pc = 3, stack = [Fin 1]\<rparr> \<and>
   toNumber (of_nat (spec_push_operand 2 [0x01])) = Fin 256 \<and>
   stack (push 2 \<lparr>code = [0x61, 0x01], pc = 1, stack = []\<rparr>)
     \<noteq> [toNumber (of_nat (spec_push_operand 2 [0x01]))]"
  by (simp add: machine_eval number_eval spec_push_operand_def)

text \<open>
  C5, amended: when the N operand bytes of a push-N (N = 1..32) run past the end of the
  bytecode and at least one operand byte is present, the value pushed is the Number
  value of the bytes present, read alone as one big-endian numeral (nothing is padded:
  the bytes present are the low-order end), and the program counter advances by N past
  the opcode.
\<close>

theorem push_truncated_operand:
  assumes "pc s + 1 < length (code s)"
    and "PUSH1 \<le> code s ! pc s" and "code s ! pc s \<le> PUSH32"
    and "length (code s) < pc s + 1 + (unat (code s ! pc s) - unat PUSH1 + 1)"
  shows "step s =
     Inr (s\<lparr>stack := stack s @ [toNumber (of_nat (be_value (drop (pc s + 1) (code s))))],
            pc := pc s + 1 + (unat (code s ! pc s) - unat PUSH1 + 1)\<rparr>)"
proof -
  have "pc s < length (code s)"
    using assms(1) by simp
  then have "step s = Inr (push (unat (code s ! pc s) - unat PUSH1 + 1) (s\<lparr>pc := pc s + 1\<rparr>))"
    using assms(2,3) by (rule step_PUSHn)
  then show ?thesis
    using assms(1,4) by (simp add: push_value)
qed

theorem push_truncated_operand_witness:
  "pc (new_EVM [0x62, 0x01, 0x02]) + 1 < length (code (new_EVM [0x62, 0x01, 0x02])) \<and>
   PUSH1 \<le> code (new_EVM [0x62, 0x01, 0x02]) ! pc (new_EVM [0x62, 0x01, 0x02]) \<and>
   code (new_EVM [0x62, 0x01, 0x02]) ! pc (new_EVM [0x62, 0x01, 0x02]) \<le> PUSH32 \<and>
   length (code (new_EVM [0x62, 0x01, 0x02])) < pc (new_EVM [0x62, 0x01, 0x02]) + 1 + 3 \<and>
   step (new_EVM [0x62, 0x01, 0x02]) = Inr \<lparr>code = [0x62, 0x01, 0x02], pc = 4, stack = [Fin 258]\<rparr>"
proof -
  let ?s = "new_EVM [0x62, 0x01, 0x02]"
  have h1: "pc ?s + 1 < length (code ?s)"
    by (simp add: new_EVM_def)
  have h2: "PUSH1 \<le> code ?s ! pc ?s" and h3: "code ?s ! pc ?s \<le> PUSH32"
    by (simp_all add: new_EVM_def PUSH1_def PUSH32_def word_le_nat_alt)
  have n: "unat (code ?s ! pc ?s) - unat PUSH1 + 1 = 3"
    by (simp add: new_EVM_def PUSH1_def)
  have h4: "length (code ?s) < pc ?s + 1 + (unat (code ?s ! pc ?s) - unat PUSH1 + 1)"
    unfolding n by (simp add: new_EVM_def)
  have "step ?s = Inr \<lparr>code = [0x62, 0x01, 0x02], pc = 4, stack = [Fin 258]\<rparr>"
    using push_truncated_operand [OF h1 h2 h3 h4]
    by (simp add: new_EVM_def PUSH1_def be_value_def number_eval)
  then show ?thesis
    using h1 h2 h3 h4 unfolding n by blast
qed

subsection \<open>C6: a byte that is no instruction\<close>

text \<open>
  C6, as stated: at a byte that matches no instruction the run halts with the failure
  InvalidOpcode and does not skip the byte. The program fe 60 01 refutes it: fe passes
  none of the tests of the chain, and the run goes on to the push and ends normally
  with the stack [1].
\<close>

theorem invalid_opcode_counterexample:
  "\<not> recognized 0xfe \<and>
   run (new_EVM [0xfe, 0x60, 0x01]) = Inr \<lparr>code = [0xfe, 0x60, 0x01], pc = 3, stack = [Fin 1]\<rparr>"
  by (simp add: recognized_def machine_eval number_eval)

text \<open>
  C6, amended: a byte that matches no instruction is skipped. The turn of the loop
  raises nothing, moves the program counter past the byte and leaves the stack as it
  is, and the run continues with the next byte.
\<close>

theorem unrecognized_skipped:
  assumes "pc s < length (code s)" and "\<not> recognized (code s ! pc s)"
  shows "step s = Inr (s\<lparr>pc := pc s + 1\<rparr>) \<and> run s = run (s\<lparr>pc := pc s + 1\<rparr>)"
  using assms by (simp add: step_unrecognized run.simps [of s])

theorem unrecognized_skipped_witness:
  "pc (new_EVM [0xfe, 0x5f]) < length (code (new_EVM [0xfe, 0x5f])) \<and>
   \<not> recognized (code (new_EVM [0xfe, 0x5f]) ! pc (new_EVM [0xfe, 0x5f])) \<and>
   step (new_EVM [0xfe, 0x5f]) = Inr \<lparr>code = [0xfe, 0x5f], pc = 1, stack = []\<rparr> \<and>
   run (new_EVM [0xfe, 0x5f]) = run \<lparr>code = [0xfe, 0x5f], pc = 1, stack = []\<rparr>"
proof -
  have h1: "pc (new_EVM [0xfe, 0x5f]) < length (code (new_EVM [0xfe, 0x5f]))"
    by (simp add: new_EVM_def)
  have h2: "\<not> recognized (code (new_EVM [0xfe, 0x5f]) ! pc (new_EVM [0xfe, 0x5f]))"
    by (simp add: new_EVM_def recognized_def machine_eval number_eval)
  show ?thesis
    using h1 h2 unrecognized_skipped [OF h1 h2] by (simp add: new_EVM_def)
qed

subsection \<open>C7: pushing on a stack of 1024 elements\<close>

text \<open>
  C7, as stated: with the stack at the maximum depth (1024) any push fails with
  StackOverflow. The class has no maximum: PUSH0 on a stack of 1024 elements gives one
  of 1025, and the program of 1025 bytes 5f ends normally with 1025 elements.
\<close>

theorem stack_overflow_counterexample:
  "length (stack \<lparr>code = [0x5f], pc = 0, stack = replicate 1024 (Fin 0)\<rparr>) = 1024 \<and>
   step \<lparr>code = [0x5f], pc = 0, stack = replicate 1024 (Fin 0)\<rparr> =
     Inr \<lparr>code = [0x5f], pc = 1, stack = replicate 1025 (Fin 0)\<rparr> \<and>
   run (new_EVM (replicate 1025 0x5f)) =
     Inr \<lparr>code = replicate 1025 0x5f, pc = 1025, stack = replicate 1025 (Fin 0)\<rparr>"
proof (intro conjI)
  show "length (stack \<lparr>code = [0x5f], pc = 0, stack = replicate 1024 (Fin 0)\<rparr>) = 1024"
    by simp
  have "replicate 1024 (Fin 0) @ [Fin 0] = replicate (Suc 1024) (Fin 0)"
    by (simp only: replicate_append_same replicate_Suc)
  then show "step \<lparr>code = [0x5f], pc = 0, stack = replicate 1024 (Fin 0)\<rparr> =
     Inr \<lparr>code = [0x5f], pc = 1, stack = replicate 1025 (Fin 0)\<rparr>"
    using step_PUSH0 [of "\<lparr>code = [0x5f], pc = 0, stack = replicate 1024 (Fin 0)\<rparr>"]
    by (simp add: PUSH0_def del: replicate_Suc)
  show "run (new_EVM (replicate 1025 0x5f)) =
     Inr \<lparr>code = replicate 1025 0x5f, pc = 1025, stack = replicate 1025 (Fin 0)\<rparr>"
    using run_PUSH0s [of 0 1025 "[]"] by (simp add: new_EVM_def PUSH0_def)
qed

text \<open>
  C7, amended: no push fails. In every state, whatever the depth of the stack, a turn of
  the loop at PUSH0 or at one of PUSH1..PUSH32 raises nothing and leaves the stack
  longer by the one value pushed.
\<close>

theorem push_never_overflows:
  assumes "pc s < length (code s)"
    and "code s ! pc s = PUSH0 \<or> (PUSH1 \<le> code s ! pc s \<and> code s ! pc s \<le> PUSH32)"
  shows "\<exists>s' v. step s = Inr s' \<and> stack s' = stack s @ [v]"
  using assms step_PUSH0 [of s] step_PUSHn [of s]
  by (auto simp: push_value)

theorem push_never_overflows_witness:
  "pc \<lparr>code = [0x5f], pc = 0, stack = replicate 1024 (Fin 0)\<rparr>
     < length (code \<lparr>code = [0x5f], pc = 0, stack = replicate 1024 (Fin 0)\<rparr>) \<and>
   code \<lparr>code = [0x5f], pc = 0, stack = replicate 1024 (Fin 0)\<rparr>
     ! pc \<lparr>code = [0x5f], pc = 0, stack = replicate 1024 (Fin 0)\<rparr> = PUSH0 \<and>
   (\<exists>s' v. step \<lparr>code = [0x5f], pc = 0, stack = replicate 1024 (Fin 0)\<rparr> = Inr s' \<and>
      stack s' = replicate 1024 (Fin 0) @ [v])"
proof -
  let ?s = "\<lparr>code = [0x5f], pc = 0, stack = replicate 1024 (Fin 0)\<rparr>"
  have h1: "pc ?s < length (code ?s)"
    by simp
  have h2: "code ?s ! pc ?s = PUSH0"
    by (simp add: PUSH0_def)
  then have h3: "code ?s ! pc ?s = PUSH0 \<or> (PUSH1 \<le> code ?s ! pc ?s \<and> code ?s ! pc ?s \<le> PUSH32)"
    by (rule disjI1)
  from push_never_overflows [OF h1 h3]
  have "\<exists>s' v. step ?s = Inr s' \<and> stack s' = replicate 1024 (Fin 0) @ [v]"
    by simp
  then show ?thesis
    using h1 h2 by blast
qed

subsection \<open>C8: stack underflow\<close>

text \<open>
  C8. Popping from an empty stack fails with \<^verbatim>\<open>Stack underflow\<close>, and every binary
  operation (ADD, MUL, SUB, DIV, MOD, LT, GT, EQ) fails with it when fewer than two
  elements are on the stack; the failure leaves \<^verbatim>\<open>run\<close>, which catches nothing. The
  program of the single byte 50 (POP), run on the empty stack, ends in that failure.
\<close>

theorem stack_underflow:
  "(stack s = [] \<longrightarrow> pop s = Inl (Error ''Stack underflow'')) \<and>
   (length (stack s) < 2 \<longrightarrow>
      (\<forall>f \<in> set [add, mul, sub, div_evm, mod_evm, lt, gt, eq].
         f s = Inl (Error ''Stack underflow''))) \<and>
   (pc s < length (code s) \<and> length (stack s) < 2 \<and>
    code s ! pc s \<in> set [ADD, MUL, SUB, DIV, MOD, LT, GT, EQ] \<longrightarrow>
      run s = Inl (Error ''Stack underflow'')) \<and>
   (pc s < length (code s) \<and> stack s = [] \<and> code s ! pc s = POP \<longrightarrow>
      run s = Inl (Error ''Stack underflow'')) \<and>
   run (new_EVM [0x50]) = Inl (Error ''Stack underflow'')"
proof (intro conjI impI)
  assume "stack s = []"
  then show "pop s = Inl (Error ''Stack underflow'')"
    by (simp add: pop_def)
next
  assume "length (stack s) < 2"
  then show "\<forall>f \<in> set [add, mul, sub, div_evm, mod_evm, lt, gt, eq].
         f s = Inl (Error ''Stack underflow'')"
    by (simp add: binary_ops binary_underflow)
next
  assume a: "pc s < length (code s) \<and> length (stack s) < 2 \<and>
    code s ! pc s \<in> set [ADD, MUL, SUB, DIV, MOD, LT, GT, EQ]"
  then have "step s = Inl (Error ''Stack underflow'')"
    by (auto simp: machine_eval word_le_nat_alt)
  then show "run s = Inl (Error ''Stack underflow'')"
    using a by (simp add: run_throw)
next
  assume a: "pc s < length (code s) \<and> stack s = [] \<and> code s ! pc s = POP"
  then have "step s = Inl (Error ''Stack underflow'')"
    by (auto simp: machine_eval word_le_nat_alt)
  then show "run s = Inl (Error ''Stack underflow'')"
    using a by (simp add: run_throw)
next
  show "run (new_EVM [0x50]) = Inl (Error ''Stack underflow'')"
    by (simp add: machine_eval number_eval)
qed

theorem stack_underflow_witness:
  "stack \<lparr>code = [0x01], pc = 0, stack = []\<rparr> = [] \<and>
   length (stack \<lparr>code = [0x01], pc = 0, stack = []\<rparr>) < 2 \<and>
   pc \<lparr>code = [0x01], pc = 0, stack = []\<rparr> < length (code \<lparr>code = [0x01], pc = 0, stack = []\<rparr>) \<and>
   code \<lparr>code = [0x01], pc = 0, stack = []\<rparr> ! pc \<lparr>code = [0x01], pc = 0, stack = []\<rparr> = ADD \<and>
   pop \<lparr>code = [0x01], pc = 0, stack = []\<rparr> = Inl (Error ''Stack underflow'') \<and>
   add \<lparr>code = [0x01], pc = 0, stack = []\<rparr> = Inl (Error ''Stack underflow'') \<and>
   run \<lparr>code = [0x01], pc = 0, stack = []\<rparr> = Inl (Error ''Stack underflow'') \<and>
   code \<lparr>code = [0x50], pc = 0, stack = []\<rparr> ! pc \<lparr>code = [0x50], pc = 0, stack = []\<rparr> = POP \<and>
   run \<lparr>code = [0x50], pc = 0, stack = []\<rparr> = Inl (Error ''Stack underflow'')"
  using stack_underflow [of "\<lparr>code = [0x01], pc = 0, stack = []\<rparr>"]
    stack_underflow [of "\<lparr>code = [0x50], pc = 0, stack = []\<rparr>"]
  by (simp add: ADD_def POP_def)

subsection \<open>C9: adding and subtracting again\<close>

text \<open>
  C9 says that \<open>add(a, b) = add(b, a)\<close>, \<open>add(a, 0) = a\<close> and
  \<open>sub(add(a, b), b) = a\<close>, the last modulo \<open>2 ^ 256\<close>. The round trip fails where
  the sum overflows. With \<open>a = b = 2 ^ 255\<close> the program pushes b, b and a (three
  PUSH32), adds and subtracts: the sum wraps to 0, and \<^verbatim>\<open>(0 - b) % 2 ** 256\<close> is
  \<open>- (2 ^ 255)\<close>, not a.
\<close>

theorem add_sub_round_trip_fails:
  "run (new_EVM
     [0x7f, 0x80, 0x00, 0x00, 0x00, 0x00, 0x00, 0x00, 0x00, 0x00, 0x00, 0x00, 0x00,
      0x00, 0x00, 0x00, 0x00, 0x00, 0x00, 0x00, 0x00, 0x00, 0x00, 0x00, 0x00, 0x00,
      0x00, 0x00, 0x00, 0x00, 0x00, 0x00, 0x00, 0x7f, 0x80, 0x00, 0x00, 0x00, 0x00,
      0x00, 0x00, 0x00, 0x00, 0x00, 0x00, 0x00, 0x00, 0x00, 0x00, 0x00, 0x00, 0x00,
      0x00, 0x00, 0x00, 0x00, 0x00, 0x00, 0x00, 0x00, 0x00, 0x00, 0x00, 0x00, 0x00,
      0x00, 0x7f, 0x80, 0x00, 0x00, 0x00, 0x00, 0x00, 0x00, 0x00, 0x00, 0x00, 0x00,
      0x00, 0x00, 0x00, 0x00, 0x00, 0x00, 0x00, 0x00, 0x00, 0x00, 0x00, 0x00, 0x00,
      0x00, 0x00, 0x00, 0x00, 0x00, 0x00, 0x00, 0x00, 0x01, 0x03]) =
   Inr \<lparr>code =
     [0x7f, 0x80, 0x00, 0x00, 0x00, 0x00, 0x00, 0x00, 0x00, 0x00, 0x00, 0x00, 0x00,
      0x00, 0x00, 0x00, 0x00, 0x00, 0x00, 0x00, 0x00, 0x00, 0x00, 0x00, 0x00, 0x00,
      0x00, 0x00, 0x00, 0x00, 0x00, 0x00, 0x00, 0x7f, 0x80, 0x00, 0x00, 0x00, 0x00,
      0x00, 0x00, 0x00, 0x00, 0x00, 0x00, 0x00, 0x00, 0x00, 0x00, 0x00, 0x00, 0x00,
      0x00, 0x00, 0x00, 0x00, 0x00, 0x00, 0x00, 0x00, 0x00, 0x00, 0x00, 0x00, 0x00,
      0x00, 0x7f, 0x80, 0x00, 0x00, 0x00, 0x00, 0x00, 0x00, 0x00, 0x00, 0x00, 0x00,
      0x00, 0x00, 0x00, 0x00, 0x00, 0x00, 0x00, 0x00, 0x00, 0x00, 0x00, 0x00, 0x00,
      0x00, 0x00, 0x00, 0x00, 0x00, 0x00, 0x00, 0x00, 0x01, 0x03],
     pc = 101, stack = [Fin (- (2 ^ 255))]\<rparr>"
  by (simp add: machine_eval number_eval toNumber_pow255 toNumber_pow256 toNumber_neg_pow255
      js_rem_self del: js_rem.simps)

subsection \<open>C10: the loop terminates\<close>

text \<open>
  C10. For every bytecode and every initial stack the loop of \<^verbatim>\<open>run\<close> terminates:
  \<open>length code - pc\<close> turns are enough for it to return, and what it returns is \<open>run s\<close>.
  A turn that does not throw moves the program counter forward by one byte for the
  opcode plus the operand size \<open>op - PUSH1 + 1\<close> of a PUSH1..PUSH32; the loop is left with
  the program counter at or past the end of the bytecode, and at once when it starts
  there.
\<close>

theorem run_terminates:
  "run_fuel (length (code s) - pc s) s = Some (run s) \<and>
   (\<forall>s'. pc s < length (code s) \<and> step s = Inr s' \<longrightarrow>
      code s' = code s \<and>
      pc s' = pc s + 1 +
        (if PUSH1 \<le> code s ! pc s \<and> code s ! pc s \<le> PUSH32
         then unat (code s ! pc s) - unat PUSH1 + 1 else 0)) \<and>
   (\<forall>s'. run s = Inr s' \<longrightarrow> code s' = code s \<and> length (code s) \<le> pc s') \<and>
   (length (code s) \<le> pc s \<longrightarrow> run s = Inr s)"
proof (intro conjI allI impI)
  show "run_fuel (length (code s) - pc s) s = Some (run s)"
    by (rule run_fuel_run) simp
next
  fix s'
  assume "pc s < length (code s) \<and> step s = Inr s'"
  then show "code s' = code s"
    and "pc s' = pc s + 1 +
        (if PUSH1 \<le> code s ! pc s \<and> code s ! pc s \<le> PUSH32
         then unat (code s ! pc s) - unat PUSH1 + 1 else 0)"
    using step_pc_exact [of s s'] by simp_all
next
  fix s'
  assume "run s = Inr s'"
  then show "code s' = code s" and "length (code s) \<le> pc s'"
    using run_exit [of s s'] by simp_all
next
  assume "length (code s) \<le> pc s"
  then show "run s = Inr s"
    by (simp add: run.simps [of s])
qed

theorem run_terminates_witness:
  "pc (new_EVM [0x61, 0x01, 0x02]) < length (code (new_EVM [0x61, 0x01, 0x02])) \<and>
   step (new_EVM [0x61, 0x01, 0x02]) = Inr \<lparr>code = [0x61, 0x01, 0x02], pc = 3, stack = [Fin 258]\<rparr> \<and>
   run (new_EVM [0x61, 0x01, 0x02]) = Inr \<lparr>code = [0x61, 0x01, 0x02], pc = 3, stack = [Fin 258]\<rparr> \<and>
   run_fuel 3 (new_EVM [0x61, 0x01, 0x02]) =
     Some (Inr \<lparr>code = [0x61, 0x01, 0x02], pc = 3, stack = [Fin 258]\<rparr>) \<and>
   length (code \<lparr>code = [0x61, 0x01, 0x02], pc = 3, stack = [Fin 258]\<rparr>)
     \<le> pc \<lparr>code = [0x61, 0x01, 0x02], pc = 3, stack = [Fin 258]\<rparr> \<and>
   run \<lparr>code = [0x61, 0x01, 0x02], pc = 3, stack = [Fin 258]\<rparr> =
     Inr \<lparr>code = [0x61, 0x01, 0x02], pc = 3, stack = [Fin 258]\<rparr>"
proof -
  let ?s = "new_EVM [0x61, 0x01, 0x02]"
  let ?t = "\<lparr>code = [0x61, 0x01, 0x02], pc = 3, stack = [Fin 258]\<rparr>"
  have st: "step ?s = Inr ?t"
    by (simp add: machine_eval number_eval)
  have len: "length (code ?s) - pc ?s = 3" and lt: "pc ?s < length (code ?s)"
    by (simp_all add: new_EVM_def)
  have le: "length (code ?t) \<le> pc ?t"
    by simp
  from run_terminates [of ?t] le have rt: "run ?t = Inr ?t"
    by blast
  have rs: "run ?s = Inr ?t"
    using lt st rt by (simp add: run.simps [of ?s])
  from run_terminates [of ?s] have "run_fuel (length (code ?s) - pc ?s) ?s = Some (run ?s)"
    by blast
  then have "run_fuel 3 ?s = Some (Inr ?t)"
    by (simp only: len rs)
  then show ?thesis
    using lt st rs le rt by blast
qed

end
